theory Spec2Isabelle
  imports Main "HOL-Library.AList" "HOL-Library.Sublist"
begin

section \<open>Data model\<close>

text \<open>
  A Python \<open>str\<close> is a sequence of code points and \<open>len\<close> counts code points, so a
  string is a list of natural numbers here. \<open>lit\<close> turns an ASCII literal of the
  source into such a list. \<open>bytes\<close> values are lists of 8-bit characters.
\<close>

type_synonym str = "nat list"
type_synonym bytes = "char list"

definition lit :: "string \<Rightarrow> str" where
  "lit s = map of_char s"

definition NL :: str where
  "NL = [10]"

text \<open>The exceptions that can end a run.\<close>

datatype error =
    KeyError str
  | IndexError
  | HttpError nat
  | AuthError
  | BinasciiError
  | UnicodeDecodeError
  | OpenAIError

text \<open>
  The JSON objects of the mail service. A key the code reads with \<open>.get\<close> or tests
  with \<open>in\<close> may be absent; a key it subscripts may be absent too, and then the
  subscript raises \<open>KeyError\<close>. So every key is an option.
\<close>

record msg_ref =
  ref_id :: "str option"

record list_response =
  resp_messages :: "msg_ref list option"

record part_body =
  body_data :: "str option"

datatype message_part =
  MessagePart (part_body: "part_body option") (part_parts: "message_part list option")

record message =
  msg_payload :: "message_part option"

text \<open>The completion object of the summarization service: \<open>choices[k].message.content\<close>.\<close>

record choice =
  message_content :: "str option"

record completion =
  choices :: "choice list"

record mime_text =
  mime_payload :: str
  mime_to :: str
  mime_subject :: str

record datetime =
  year :: nat
  month :: nat
  day :: nat

text \<open>Every request sent to one of the two services, with its arguments.\<close>

datatype event =
    MessagesList str str nat
  | MessagesGet str str str
  | MessagesModify str str "str list"
  | MessagesSend str str
  | ChatCompletionsCreate str "(str \<times> str) list"

text \<open>
  The outside world. What a service answers may depend on every request made so far,
  the one being answered included (it is the last event of the list). The library
  codecs are pure functions; \<open>as_raw\<close> is
  \<open>base64.urlsafe_b64encode(message.as_bytes()).decode('utf-8')\<close>.
\<close>

record world =
  auth :: "error + unit"
  list_execute :: "event list \<Rightarrow> error + list_response"
  get_execute :: "event list \<Rightarrow> error + message"
  modify_execute :: "event list \<Rightarrow> error + unit"
  send_execute :: "event list \<Rightarrow> error + unit"
  chat_create :: "event list \<Rightarrow> error + completion"
  urlsafe_b64decode :: "str \<Rightarrow> error + bytes"
  bytes_decode :: "bytes \<Rightarrow> error + str"
  now :: "event list \<Rightarrow> datetime"
  as_raw :: "mime_text \<Rightarrow> str"

section \<open>Effects: a trace of requests, and exceptions as values\<close>

type_synonym 'a io = "event list \<Rightarrow> (error + 'a) \<times> event list"

definition io_return :: "'a \<Rightarrow> 'a io" where
  "io_return x = (\<lambda>tr. (Inr x, tr))"

definition io_raise :: "error \<Rightarrow> 'a io" where
  "io_raise e = (\<lambda>tr. (Inl e, tr))"

definition io_lift :: "error + 'a \<Rightarrow> 'a io" where
  "io_lift r = (\<lambda>tr. (r, tr))"

definition io_bind :: "'a io \<Rightarrow> ('a \<Rightarrow> 'b io) \<Rightarrow> 'b io" where
  "io_bind m f = (\<lambda>tr. case m tr of (Inl e, tr') \<Rightarrow> (Inl e, tr') | (Inr x, tr') \<Rightarrow> f x tr')"

definition call :: "event \<Rightarrow> (event list \<Rightarrow> error + 'a) \<Rightarrow> 'a io" where
  "call ev respond = (\<lambda>tr. (respond (tr @ [ev]), tr @ [ev]))"

section \<open>The program\<close>

text \<open>
  One definition per function of \<open>newsletter_processor.py\<close>, and one per loop of
  \<open>main\<close>. The progress lines that \<open>main\<close> prints and the assignment of the API key
  reach neither service and are left out. \<open>main_with\<close> is \<open>main\<close> with the sender list
  as an argument.
\<close>

definition NEWSLETTER_SENDERS :: "str list" where
  "NEWSLETTER_SENDERS =
     [lit ''review@firstround.com'',
      lit ''dan@tldrnewsletter.com'',
      lit ''lenny@substack.com'',
      lit ''andrewchen@substack.com'']"

definition me :: str where
  "me = lit ''me''"

definition get_gmail_service :: "world \<Rightarrow> unit io" where
  "get_gmail_service w = io_lift (auth w)"

definition get_newsletter_emails :: "world \<Rightarrow> str \<Rightarrow> msg_ref list io" where
  "get_newsletter_emails w sender_email =
     (let query = lit ''from:'' @ sender_email @ lit '' is:unread'' in
      io_bind (call (MessagesList me query 1) (list_execute w)) (\<lambda>results.
      io_return (case resp_messages results of None \<Rightarrow> [] | Some ms \<Rightarrow> ms)))"

definition get_data :: "part_body \<Rightarrow> str" where
  "get_data b = (case body_data b of None \<Rightarrow> [] | Some d \<Rightarrow> d)"

definition get_email_content :: "world \<Rightarrow> str \<Rightarrow> str io" where
  "get_email_content w mid =
     io_bind (call (MessagesGet me mid (lit ''full'')) (get_execute w)) (\<lambda>msg.
     case msg_payload msg of
       None \<Rightarrow> io_raise (KeyError (lit ''payload''))
     | Some pl \<Rightarrow>
         io_bind
           (case part_parts pl of
              Some ps \<Rightarrow>
                (case ps of
                   [] \<Rightarrow> io_raise IndexError
                 | p # _ \<Rightarrow>
                     (case part_body p of
                        None \<Rightarrow> io_raise (KeyError (lit ''body''))
                      | Some b \<Rightarrow> io_return (get_data b)))
            | None \<Rightarrow>
                (case part_body pl of
                   None \<Rightarrow> io_raise (KeyError (lit ''body''))
                 | Some b \<Rightarrow> io_return (get_data b)))
           (\<lambda>d.
              if d \<noteq> [] then
                io_bind (io_lift (urlsafe_b64decode w d)) (\<lambda>raw. io_lift (bytes_decode w raw))
              else io_return []))"

definition truncated_content :: "str \<Rightarrow> str" where
  "truncated_content content =
     (if length content > 4000 then take 4000 content @ lit ''...'' else content)"

definition system_prompt :: str where
  "system_prompt =
     lit ''Summarize the following newsletter content in 2-3 concise bullet points.''"

definition summarize_with_gpt :: "world \<Rightarrow> str \<Rightarrow> str option io" where
  "summarize_with_gpt w content =
     io_bind
       (call (ChatCompletionsCreate (lit ''gpt-4'')
                [(lit ''system'', system_prompt), (lit ''user'', truncated_content content)])
             (chat_create w))
       (\<lambda>c. case choices c of
               [] \<Rightarrow> io_raise IndexError
             | ch # _ \<Rightarrow> io_return (message_content ch))"

text \<open>
  \<open>strftime('%Y-%m-%d')\<close>: decimal digits, padded with zeros to four, two and two
  places, as the library documents it. Some C libraries do not pad a year below 1000;
  for a year of four digits there is nothing to pad.
\<close>

fun decimal :: "nat \<Rightarrow> str" where
  "decimal n = (if n < 10 then [48 + n] else decimal (n div 10) @ [48 + n mod 10])"

declare decimal.simps [simp del]

definition zfill :: "nat \<Rightarrow> str \<Rightarrow> str" where
  "zfill k s = replicate (k - length s) 48 @ s"

definition strftime_Ymd :: "datetime \<Rightarrow> str" where
  "strftime_Ymd d =
     zfill 4 (decimal (year d)) @ lit ''-'' @ zfill 2 (decimal (month d)) @ lit ''-''
       @ zfill 2 (decimal (day d))"

text \<open>What an f-string prints for a summary: the text, or \<open>None\<close> for the value None.\<close>

definition fmt :: "str option \<Rightarrow> str" where
  "fmt v = (case v of None \<Rightarrow> lit ''None'' | Some s \<Rightarrow> s)"

type_synonym summaries = "(str \<times> str option) list"

definition block :: "str \<times> str option \<Rightarrow> str" where
  "block e = NL @ lit ''From '' @ fst e @ lit '':'' @ NL @ fmt (snd e) @ NL"

definition compose :: "str \<Rightarrow> summaries \<Rightarrow> mime_text" where
  "compose date_str sm =
     (let email_content =
            fold (\<lambda>e acc. acc @ block e) sm
              (lit ''Newsletter Summaries for '' @ date_str @ NL @ NL)
      in \<lparr> mime_payload = email_content,
           mime_to = lit ''atreya@gmail.com'',
           mime_subject = lit ''Newsletter Summaries - '' @ date_str \<rparr>)"

definition send_summary_email :: "world \<Rightarrow> summaries \<Rightarrow> unit io" where
  "send_summary_email w sm =
     (\<lambda>tr. let date_str = strftime_Ymd (now w tr);
               raw_message = as_raw w (compose date_str sm)
           in call (MessagesSend me raw_message) (send_execute w) tr)"

definition archive_email :: "world \<Rightarrow> str \<Rightarrow> unit io" where
  "archive_email w mid =
     call (MessagesModify me mid [lit ''UNREAD'', lit ''INBOX'']) (modify_execute w)"

text \<open>The inner loop of \<open>main\<close>, over the messages of one sender.\<close>

fun messages_loop :: "world \<Rightarrow> msg_ref list \<Rightarrow> str \<Rightarrow> str io" where
  "messages_loop w [] combined_content = io_return combined_content"
| "messages_loop w (m # ms) combined_content =
     (case ref_id m of
        None \<Rightarrow> io_raise (KeyError (lit ''id''))
      | Some mid \<Rightarrow>
          io_bind (get_email_content w mid) (\<lambda>content.
          io_bind (archive_email w mid) (\<lambda>_.
          messages_loop w ms (combined_content @ content @ NL @ NL))))"

text \<open>The body of the outer loop; a dict keeps the place of a key that is set again.\<close>

definition process_sender :: "world \<Rightarrow> str \<Rightarrow> summaries \<Rightarrow> summaries io" where
  "process_sender w sender sm =
     io_bind (get_newsletter_emails w sender) (\<lambda>msgs.
       if msgs \<noteq> [] then
         io_bind (messages_loop w msgs []) (\<lambda>combined_content.
           if combined_content \<noteq> [] then
             io_bind (summarize_with_gpt w combined_content) (\<lambda>summary.
               io_return (AList.update sender summary sm))
           else io_return sm)
       else io_return sm)"

fun senders_loop :: "world \<Rightarrow> str list \<Rightarrow> summaries \<Rightarrow> summaries io" where
  "senders_loop w [] sm = io_return sm"
| "senders_loop w (sender # rest) sm =
     io_bind (process_sender w sender sm) (senders_loop w rest)"

definition main_with :: "world \<Rightarrow> str list \<Rightarrow> unit io" where
  "main_with w senders =
     io_bind (get_gmail_service w) (\<lambda>_.
     io_bind (senders_loop w senders []) (\<lambda>sm.
       if sm \<noteq> [] then send_summary_email w sm else io_return ()))"

definition main :: "world \<Rightarrow> unit io" where
  "main w = main_with w NEWSLETTER_SENDERS"

section \<open>Observations on a trace\<close>

fun is_list_query :: "event \<Rightarrow> bool" where
  "is_list_query (MessagesList _ _ _) = True"
| "is_list_query _ = False"

fun is_modify :: "event \<Rightarrow> bool" where
  "is_modify (MessagesModify _ _ _) = True"
| "is_modify _ = False"

fun is_send :: "event \<Rightarrow> bool" where
  "is_send (MessagesSend _ _) = True"
| "is_send _ = False"

fun is_chat :: "event \<Rightarrow> bool" where
  "is_chat (ChatCompletionsCreate _ _) = True"
| "is_chat _ = False"

text \<open>The two requests the inner loop issues for a message: fetch it, then archive it.\<close>

definition fetch_archive :: "str \<Rightarrow> event list" where
  "fetch_archive i =
     [MessagesGet me i (lit ''full''), MessagesModify me i [lit ''UNREAD'', lit ''INBOX'']]"

text \<open>The dates \<open>datetime\<close> can hold, and the shape \<open>YYYY-MM-DD\<close> of a string.\<close>

definition valid_date :: "datetime \<Rightarrow> bool" where
  "valid_date d \<longleftrightarrow>
     1 \<le> year d \<and> year d \<le> 9999 \<and> 1 \<le> month d \<and> month d \<le> 12 \<and> 1 \<le> day d \<and> day d \<le> 31"

definition is_digit :: "nat \<Rightarrow> bool" where
  "is_digit c \<longleftrightarrow> 48 \<le> c \<and> c \<le> 57"

definition is_iso_date :: "str \<Rightarrow> bool" where
  "is_iso_date s \<longleftrightarrow>
     length s = 10 \<and> s ! 4 = 45 \<and> s ! 7 = 45 \<and>
     list_all (\<lambda>j. is_digit (s ! j)) [0, 1, 2, 3, 5, 6, 8, 9]"

section \<open>Two sample mailboxes\<close>

text \<open>
  In the first, \<open>a@example.com\<close> has one unread message whose body is the text
  \<open>Hello world\<close> and nobody else has any. The second differs in that the body of
  the message carries no data.
\<close>

definition sender_A :: str where
  "sender_A = lit ''a@example.com''"

definition sender_B :: str where
  "sender_B = lit ''b@example.com''"

definition demo_world :: world where
  "demo_world =
     \<lparr> auth = Inr (),
       list_execute = (\<lambda>tr.
         if last tr = MessagesList me (lit ''from:a@example.com is:unread'') 1
         then Inr \<lparr> resp_messages = Some [\<lparr> ref_id = Some (lit ''m1'') \<rparr>] \<rparr>
         else Inr \<lparr> resp_messages = None \<rparr>),
       get_execute = (\<lambda>tr.
         Inr \<lparr> msg_payload =
           Some (MessagePart (Some \<lparr> body_data = Some (lit ''SGVsbG8gd29ybGQ='') \<rparr>) None) \<rparr>),
       modify_execute = (\<lambda>tr. Inr ()),
       send_execute = (\<lambda>tr. Inr ()),
       chat_create = (\<lambda>tr. Inr \<lparr> choices = [\<lparr> message_content = Some (lit ''- hi'') \<rparr>] \<rparr>),
       urlsafe_b64decode = (\<lambda>d.
         if d = lit ''SGVsbG8gd29ybGQ='' then Inr ''Hello world'' else Inl BinasciiError),
       bytes_decode = (\<lambda>b. Inr (map of_char b)),
       now = (\<lambda>tr. \<lparr> year = 2024, month = 3, day = 7 \<rparr>),
       as_raw = (\<lambda>m. mime_subject m @ NL @ mime_payload m) \<rparr>"

definition empty_body_world :: world where
  "empty_body_world =
     demo_world \<lparr> get_execute := (\<lambda>tr.
       Inr \<lparr> msg_payload = Some (MessagePart (Some \<lparr> body_data = None \<rparr>) None) \<rparr>) \<rparr>"

text \<open>
  In the third the message is multipart: the first sub-part carries the text, the second
  sub-part and the top-level body carry other data.
\<close>

definition multipart_world :: world where
  "multipart_world =
     demo_world \<lparr> get_execute := (\<lambda>tr.
       Inr \<lparr> msg_payload =
         Some (MessagePart (Some \<lparr> body_data = Some (lit ''dG9w'') \<rparr>)
           (Some [MessagePart (Some \<lparr> body_data = Some (lit ''SGVsbG8gd29ybGQ='') \<rparr>) None,
                  MessagePart (Some \<lparr> body_data = Some (lit ''PGI+'') \<rparr>) None])) \<rparr>) \<rparr>"

section \<open>Basic facts\<close>

lemma lit_eq_iff [simp]: "lit s = lit t \<longleftrightarrow> s = t"
  by (simp add: lit_def inj_map_eq_map [OF inj_of_char])

lemma lit_append [simp]: "lit s @ lit t = lit (s @ t)" "lit s @ lit t @ u = lit (s @ t) @ u"
  by (simp_all add: lit_def)

lemma lit_Nil [simp]: "lit [] = []" "lit s = [] \<longleftrightarrow> s = []"
  by (auto simp add: lit_def)

lemma length_lit [simp]: "length (lit s) = length s"
  by (simp add: lit_def)

lemma length_NL [simp]: "length NL = 1"
  by (simp add: NL_def)

lemma io_bind_apply:
  "io_bind m f tr = (case m tr of (Inl e, tr') \<Rightarrow> (Inl e, tr') | (Inr x, tr') \<Rightarrow> f x tr')"
  by (simp add: io_bind_def)

lemma io_return_apply: "io_return x tr = (Inr x, tr)"
  by (simp add: io_return_def)

lemma io_raise_apply: "io_raise e tr = (Inl e, tr)"
  by (simp add: io_raise_def)

lemma io_lift_apply: "io_lift r tr = (r, tr)"
  by (simp add: io_lift_def)

lemma call_apply: "call ev respond tr = (respond (tr @ [ev]), tr @ [ev])"
  by (simp add: call_def)

lemmas io_simps = io_bind_apply io_return_apply io_raise_apply io_lift_apply call_apply

subsection \<open>Each service function issues exactly one request\<close>

lemma snd_get_newsletter_emails:
  "snd (get_newsletter_emails w s tr) =
     tr @ [MessagesList me (lit ''from:'' @ s @ lit '' is:unread'') 1]"
  by (simp add: get_newsletter_emails_def io_simps split: sum.splits)

lemma snd_get_email_content:
  "snd (get_email_content w i tr) = tr @ [MessagesGet me i (lit ''full'')]"
  by (simp add: get_email_content_def io_simps split: sum.splits option.splits list.splits)

lemma snd_archive_email:
  "snd (archive_email w i tr) = tr @ [MessagesModify me i [lit ''UNREAD'', lit ''INBOX'']]"
  by (simp add: archive_email_def io_simps)

lemma snd_summarize_with_gpt:
  "snd (summarize_with_gpt w c tr) =
     tr @ [ChatCompletionsCreate (lit ''gpt-4'')
             [(lit ''system'', system_prompt), (lit ''user'', truncated_content c)]]"
  by (simp add: summarize_with_gpt_def io_simps split: sum.splits list.splits)

lemma snd_send_summary_email:
  "snd (send_summary_email w sm tr) =
     tr @ [MessagesSend me (as_raw w (compose (strftime_Ymd (now w tr)) sm))]"
  by (simp add: send_summary_email_def io_simps Let_def)

lemma io_cases:
  assumes "snd (m tr) = tr1"
  obtains e where "m tr = (Inl e, tr1)" | x where "m tr = (Inr x, tr1)"
  using assms by (cases "m tr"; cases "fst (m tr)") auto

subsection \<open>The inner loop\<close>

lemma messages_loop_step:
  assumes "ref_id m = Some i" "get_email_content w i tr = (Inr content, tr1)"
  shows "messages_loop w (m # ms) acc tr =
     io_bind (archive_email w i) (\<lambda>_. messages_loop w ms (acc @ content @ NL @ NL)) tr1"
  using assms by (simp add: io_bind_apply)

lemma messages_loop_ok:
  "messages_loop w ms acc tr = (Inr c, tr') \<Longrightarrow>
     \<exists>ids. map ref_id ms = map Some ids \<and> tr' = tr @ concat (map fetch_archive ids)"
proof (induction ms arbitrary: acc tr)
  case Nil
  then show ?case by (simp add: io_simps)
next
  case (Cons m ms)
  from Cons.prems obtain i where i: "ref_id m = Some i"
    by (cases "ref_id m") (auto simp: io_simps)
  show ?case
  proof (rule io_cases [of "get_email_content w i" tr, OF snd_get_email_content])
    fix e assume "get_email_content w i tr = (Inl e, tr @ [MessagesGet me i (lit ''full'')])"
    with Cons.prems i show ?thesis by (simp add: io_simps)
  next
    fix content
    assume g: "get_email_content w i tr = (Inr content, tr @ [MessagesGet me i (lit ''full'')])"
    show ?thesis
    proof (rule io_cases [of "archive_email w i" "tr @ [MessagesGet me i (lit ''full'')]",
          OF snd_archive_email])
      fix e
      assume "archive_email w i (tr @ [MessagesGet me i (lit ''full'')]) =
        (Inl e, (tr @ [MessagesGet me i (lit ''full'')]) @
           [MessagesModify me i [lit ''UNREAD'', lit ''INBOX'']])"
      with Cons.prems i g show ?thesis by (simp add: io_simps)
    next
      fix u :: unit
      assume a: "archive_email w i (tr @ [MessagesGet me i (lit ''full'')]) =
        (Inr u, (tr @ [MessagesGet me i (lit ''full'')]) @
           [MessagesModify me i [lit ''UNREAD'', lit ''INBOX'']])"
      with Cons.prems i g
      have "messages_loop w ms (acc @ content @ NL @ NL) (tr @ fetch_archive i) = (Inr c, tr')"
        by (simp add: io_simps fetch_archive_def)
      from Cons.IH [OF this] obtain ids where
        "map ref_id ms = map Some ids" "tr' = (tr @ fetch_archive i) @ concat (map fetch_archive ids)"
        by blast
      with i have "map ref_id (m # ms) = map Some (i # ids) \<and>
          tr' = tr @ concat (map fetch_archive (i # ids))"
        by simp
      then show ?thesis by blast
    qed
  qed
qed

lemma messages_loop_nonempty:
  "messages_loop w ms acc tr = (Inr c, tr') \<Longrightarrow> ms \<noteq> [] \<or> acc \<noteq> [] \<Longrightarrow> c \<noteq> []"
proof (induction ms arbitrary: acc tr)
  case Nil
  then show ?case by (simp add: io_simps)
next
  case (Cons m ms)
  from Cons.prems obtain i where i: "ref_id m = Some i"
    by (cases "ref_id m") (auto simp: io_simps)
  from Cons.prems(1) i obtain content tr2 where
    "messages_loop w ms (acc @ content @ NL @ NL) tr2 = (Inr c, tr')"
    by (auto simp: io_simps split: sum.splits prod.splits)
  moreover have "acc @ content @ NL @ NL \<noteq> []" by (simp add: NL_def)
  ultimately show ?case using Cons.IH by blast
qed

text \<open>The inner loop issues fetch and archive requests only, whatever its outcome.\<close>

lemma messages_loop_filter:
  assumes "\<And>u i f. \<not> P (MessagesGet u i f)" "\<And>u i l. \<not> P (MessagesModify u i l)"
  shows "filter P (snd (messages_loop w ms acc tr)) = filter P tr"
proof (induction ms arbitrary: acc tr)
  case Nil
  show ?case by (simp add: io_simps)
next
  case (Cons m ms)
  show ?case
  proof (cases "ref_id m")
    case None
    then show ?thesis by (simp add: io_simps)
  next
    case (Some i)
    show ?thesis
    proof (rule io_cases [of "get_email_content w i" tr, OF snd_get_email_content])
      fix e assume "get_email_content w i tr = (Inl e, tr @ [MessagesGet me i (lit ''full'')])"
      with Some show ?thesis by (simp add: io_simps assms)
    next
      fix content
      assume g: "get_email_content w i tr = (Inr content, tr @ [MessagesGet me i (lit ''full'')])"
      show ?thesis
      proof (rule io_cases [of "archive_email w i" "tr @ [MessagesGet me i (lit ''full'')]",
          OF snd_archive_email])
        fix e
        assume "archive_email w i (tr @ [MessagesGet me i (lit ''full'')]) =
          (Inl e, (tr @ [MessagesGet me i (lit ''full'')]) @
             [MessagesModify me i [lit ''UNREAD'', lit ''INBOX'']])"
        with Some g show ?thesis by (simp add: io_simps assms)
      next
        fix u :: unit
        assume "archive_email w i (tr @ [MessagesGet me i (lit ''full'')]) =
          (Inr u, (tr @ [MessagesGet me i (lit ''full'')]) @
             [MessagesModify me i [lit ''UNREAD'', lit ''INBOX'']])"
        with Some g show ?thesis by (simp add: io_simps assms Cons.IH)
      qed
    qed
  qed
qed

subsection \<open>The outer loop\<close>

lemma snd_io_bind:
  "snd (io_bind m f tr) =
     (case m tr of (Inl e, tr1) \<Rightarrow> tr1 | (Inr x, tr1) \<Rightarrow> snd (f x tr1))"
  by (simp add: io_bind_def split: prod.splits sum.splits)

lemma process_sender_unfold:
  assumes "get_newsletter_emails w s tr = (Inr ms, tr1)"
  shows "process_sender w s sm tr =
     (if ms \<noteq> [] then
        io_bind (messages_loop w ms []) (\<lambda>c.
          if c \<noteq> [] then
            io_bind (summarize_with_gpt w c) (\<lambda>summary. io_return (AList.update s summary sm))
          else io_return sm) tr1
      else (Inr sm, tr1))"
  using assms by (simp add: process_sender_def io_bind_apply io_return_apply)

lemma process_sender_filter:
  assumes nG: "\<And>u i f. \<not> P (MessagesGet u i f)"
    and nM: "\<And>u i l. \<not> P (MessagesModify u i l)"
    and nC: "\<And>mdl msgs. \<not> P (ChatCompletionsCreate mdl msgs)"
  shows "filter P (snd (process_sender w s sm tr)) =
     filter P (tr @ [MessagesList me (lit ''from:'' @ s @ lit '' is:unread'') 1])"
proof (rule io_cases [of "get_newsletter_emails w s" tr, OF snd_get_newsletter_emails])
  fix e
  assume "get_newsletter_emails w s tr =
    (Inl e, tr @ [MessagesList me (lit ''from:'' @ s @ lit '' is:unread'') 1])"
  then show ?thesis by (simp add: process_sender_def io_bind_apply)
next
  fix ms
  let ?tr1 = "tr @ [MessagesList me (lit ''from:'' @ s @ lit '' is:unread'') 1]"
  assume q: "get_newsletter_emails w s tr = (Inr ms, ?tr1)"
  show ?thesis
  proof (cases "ms = []")
    case True
    with process_sender_unfold [OF q] show ?thesis by simp
  next
    case False
    obtain r2 tr2 where l: "messages_loop w ms [] ?tr1 = (r2, tr2)"
      by (cases "messages_loop w ms [] ?tr1")
    have f2: "filter P tr2 = filter P ?tr1"
      using messages_loop_filter [of P w ms "[]" ?tr1, OF nG nM] l by simp
    show ?thesis
    proof (cases r2)
      case (Inl e)
      with process_sender_unfold [OF q] False l f2 show ?thesis
        by (simp add: io_bind_apply)
    next
      case (Inr c)
      show ?thesis
      proof (cases "c = []")
        case True
        with process_sender_unfold [OF q] False l f2 Inr show ?thesis
          by (simp add: io_bind_apply io_return_apply)
      next
        case nonempty: False
        have "snd (process_sender w s sm tr) = snd (summarize_with_gpt w c tr2)"
          using process_sender_unfold [OF q] False l Inr nonempty
          by (simp add: snd_io_bind io_return_apply split: prod.splits sum.splits)
        with f2 show ?thesis by (simp add: snd_summarize_with_gpt nC)
      qed
    qed
  qed
qed

lemma senders_loop_queries:
  "senders_loop w ss sm tr = (r, tr') \<Longrightarrow>
     \<exists>k\<le>length ss.
       filter is_list_query tr' =
         filter is_list_query tr @
           map (\<lambda>s. MessagesList me (lit ''from:'' @ s @ lit '' is:unread'') 1) (take k ss)
       \<and> ((\<exists>x. r = Inr x) \<longrightarrow> k = length ss)"
proof (induction ss arbitrary: sm tr)
  case Nil
  then show ?case by (auto simp: io_return_apply)
next
  case (Cons s ss)
  obtain r1 tr1 where p: "process_sender w s sm tr = (r1, tr1)"
    by (cases "process_sender w s sm tr")
  have f1: "filter is_list_query tr1 =
      filter is_list_query tr @ [MessagesList me (lit ''from:'' @ s @ lit '' is:unread'') 1]"
    using process_sender_filter [of is_list_query w s sm tr] p by simp
  show ?case
  proof (cases r1)
    case (Inl e)
    with Cons.prems p have "r = Inl e" "tr' = tr1" by (simp_all add: io_bind_apply)
    with f1 have "filter is_list_query tr' =
        filter is_list_query tr @
          map (\<lambda>s. MessagesList me (lit ''from:'' @ s @ lit '' is:unread'') 1) (take 1 (s # ss))
        \<and> ((\<exists>x. r = Inr x) \<longrightarrow> 1 = length (s # ss))"
      by simp
    then show ?thesis
      by (intro exI [of _ 1]) simp
  next
    case (Inr sm1)
    with Cons.prems p have "senders_loop w ss sm1 tr1 = (r, tr')" by (simp add: io_bind_apply)
    from Cons.IH [OF this] obtain k where k: "k \<le> length ss"
      "filter is_list_query tr' =
         filter is_list_query tr1 @
           map (\<lambda>s. MessagesList me (lit ''from:'' @ s @ lit '' is:unread'') 1) (take k ss)"
      "(\<exists>x. r = Inr x) \<longrightarrow> k = length ss"
      by blast
    with f1 show ?thesis
      by (intro exI [of _ "Suc k"]) simp
  qed
qed

lemma senders_loop_no_send:
  "filter is_send (snd (senders_loop w ss sm tr)) = filter is_send tr"
proof (induction ss arbitrary: sm tr)
  case Nil
  show ?case by (simp add: io_return_apply)
next
  case (Cons s ss)
  have "filter is_send (snd (process_sender w s sm tr)) = filter is_send tr"
    using process_sender_filter [of is_send w s sm tr] by simp
  then show ?case
    by (auto simp add: snd_io_bind Cons.IH split: prod.splits sum.splits)
qed

lemma main_with_after_loop:
  assumes "auth w = Inr ()" "senders_loop w senders [] tr = (Inr sm, tr1)"
  shows "main_with w senders tr =
     (if sm \<noteq> [] then send_summary_email w sm tr1 else (Inr (), tr1))"
  using assms by (simp add: main_with_def get_gmail_service_def io_simps)

lemma process_sender_result:
  "process_sender w s sm tr = (Inr sm', tr') \<Longrightarrow>
     sm' = sm \<or> (\<exists>v. sm' = AList.update s v sm)"
  by (auto simp: process_sender_def io_simps split: prod.splits sum.splits if_splits)

lemma process_sender_no_messages:
  assumes "fst (get_newsletter_emails w s tr) = Inr []"
  shows "process_sender w s sm tr =
     (Inr sm, tr @ [MessagesList me (lit ''from:'' @ s @ lit '' is:unread'') 1])"
proof -
  have "get_newsletter_emails w s tr =
      (Inr [], tr @ [MessagesList me (lit ''from:'' @ s @ lit '' is:unread'') 1])"
    using assms snd_get_newsletter_emails [of w s tr]
    by (cases "get_newsletter_emails w s tr") simp
  from process_sender_unfold [OF this] show ?thesis by simp
qed

lemma senders_loop_absent:
  assumes "\<And>t. fst (get_newsletter_emails w s t) = Inr []"
  shows "senders_loop w ss sm tr = (Inr sm', tr') \<Longrightarrow> s \<notin> fst ` set sm \<Longrightarrow> s \<notin> fst ` set sm'"
proof (induction ss arbitrary: sm tr)
  case Nil
  then show ?case by (simp add: io_return_apply)
next
  case (Cons x ss)
  from Cons.prems(1) obtain sm1 tr1 where
    p: "process_sender w x sm tr = (Inr sm1, tr1)" and l: "senders_loop w ss sm1 tr1 = (Inr sm', tr')"
    by (auto simp: io_bind_apply split: prod.splits sum.splits)
  have "s \<notin> fst ` set sm1"
  proof (cases "x = s")
    case True
    with p process_sender_no_messages [OF assms] Cons.prems(2) show ?thesis by simp
  next
    case False
    from process_sender_result [OF p] show ?thesis
    proof
      assume "sm1 = sm"
      with Cons.prems(2) show ?thesis by simp
    next
      assume "\<exists>v. sm1 = AList.update x v sm"
      then obtain v where "sm1 = AList.update x v sm" ..
      then have "fst ` set sm1 = {x} \<union> fst ` set sm" by (simp only: dom_update)
      with False Cons.prems(2) show ?thesis by simp
    qed
  qed
  with Cons.IH [OF l] show ?case .
qed

lemma senders_loop_keys:
  "senders_loop w ss sm tr = (Inr sm', tr') \<Longrightarrow>
     \<exists>added. map fst sm' = map fst sm @ added \<and> subseq added ss \<and>
       (distinct (map fst sm) \<longrightarrow> distinct (map fst sm'))"
proof (induction ss arbitrary: sm tr)
  case Nil
  then show ?case by (simp add: io_return_apply)
next
  case (Cons s ss)
  from Cons.prems obtain sm1 tr1 where
    p: "process_sender w s sm tr = (Inr sm1, tr1)" and l: "senders_loop w ss sm1 tr1 = (Inr sm', tr')"
    by (auto simp: io_bind_apply split: prod.splits sum.splits)
  from Cons.IH [OF l] obtain added where a: "map fst sm' = map fst sm1 @ added"
    "subseq added ss" "distinct (map fst sm1) \<longrightarrow> distinct (map fst sm')"
    by blast
  have d: "distinct (map fst sm) \<longrightarrow> distinct (map fst sm1)"
    using process_sender_result [OF p] by (auto simp: distinct_update)
  have "map fst sm1 = map fst sm \<or> map fst sm1 = map fst sm @ [s]"
  proof -
    from process_sender_result [OF p] consider "sm1 = sm" | v where "sm1 = AList.update s v sm"
      by blast
    then show ?thesis
    proof cases
      case 1
      then show ?thesis by simp
    next
      case 2
      then have "map fst sm1 = (if s \<in> set (map fst sm) then map fst sm else map fst sm @ [s])"
        by (simp only: update_keys)
      then show ?thesis by (simp split: if_splits)
    qed
  qed
  then show ?case
  proof
    assume "map fst sm1 = map fst sm"
    moreover from a(2) have "subseq added (s # ss)" by (rule list_emb_Cons)
    ultimately have "map fst sm' = map fst sm @ added \<and> subseq added (s # ss) \<and>
        (distinct (map fst sm) \<longrightarrow> distinct (map fst sm'))"
      using a d by simp
    then show ?thesis by blast
  next
    assume "map fst sm1 = map fst sm @ [s]"
    with a d have "map fst sm' = map fst sm @ (s # added) \<and> subseq (s # added) (s # ss) \<and>
        (distinct (map fst sm) \<longrightarrow> distinct (map fst sm'))"
      by simp
    then show ?thesis by blast
  qed
qed

subsection \<open>The two sample runs\<close>

lemmas run_defs =
  main_with_def get_gmail_service_def process_sender_def get_newsletter_emails_def
  get_email_content_def archive_email_def summarize_with_gpt_def send_summary_email_def
  get_data_def truncated_content_def compose_def block_def fmt_def strftime_Ymd_def zfill_def
  io_simps Let_def sender_A_def sender_B_def


lemma demo_auth: "auth demo_world = Inr ()"
  by (simp add: demo_world_def)

lemma demo_loop:
  "senders_loop demo_world [sender_A, sender_B] [] [] =
     (Inr [(sender_A, Some (lit ''- hi''))],
      [MessagesList me (lit ''from:a@example.com is:unread'') 1,
       MessagesGet me (lit ''m1'') (lit ''full''),
       MessagesModify me (lit ''m1'') [lit ''UNREAD'', lit ''INBOX''],
       ChatCompletionsCreate (lit ''gpt-4'')
         [(lit ''system'', system_prompt), (lit ''user'', lit ''Hello world'' @ NL @ NL)],
       MessagesList me (lit ''from:b@example.com is:unread'') 1])"
  by (simp add: run_defs demo_world_def lit_def [symmetric])

lemma demo_run:
  "main_with demo_world [sender_A, sender_B] [] =
     (Inr (),
      [MessagesList me (lit ''from:a@example.com is:unread'') 1,
       MessagesGet me (lit ''m1'') (lit ''full''),
       MessagesModify me (lit ''m1'') [lit ''UNREAD'', lit ''INBOX''],
       ChatCompletionsCreate (lit ''gpt-4'')
         [(lit ''system'', system_prompt), (lit ''user'', lit ''Hello world'' @ NL @ NL)],
       MessagesList me (lit ''from:b@example.com is:unread'') 1,
       MessagesSend me
         (lit ''Newsletter Summaries - 2024-03-07'' @ NL @
          lit ''Newsletter Summaries for 2024-03-07'' @ NL @ NL @ NL @
          lit ''From a@example.com:'' @ NL @ lit ''- hi'' @ NL)])"
  by (simp add: run_defs demo_world_def decimal.simps lit_def NL_def)

lemma quiet_loop:
  "senders_loop demo_world [sender_B] [] [] =
     (Inr [], [MessagesList me (lit ''from:b@example.com is:unread'') 1])"
  by (simp add: run_defs demo_world_def)

lemma quiet_run:
  "main_with demo_world [sender_B] [] =
     (Inr (), [MessagesList me (lit ''from:b@example.com is:unread'') 1])"
  by (simp add: run_defs demo_world_def)

subsection \<open>Dates and the digest text\<close>

lemma decimal_1: "n < 10 \<Longrightarrow> decimal n = [48 + n]"
  by (simp add: decimal.simps)

lemma decimal_2: "10 \<le> n \<Longrightarrow> n < 100 \<Longrightarrow> decimal n = [48 + n div 10, 48 + n mod 10]"
  by (subst decimal.simps) (simp add: decimal_1)

lemma decimal_3:
  "100 \<le> n \<Longrightarrow> n < 1000 \<Longrightarrow> decimal n = [48 + n div 100, 48 + n div 10 mod 10, 48 + n mod 10]"
  by (subst decimal.simps) (simp add: decimal_2 div_mult2_eq)

lemma decimal_4:
  assumes "1000 \<le> n" "n < 10000"
  shows "decimal n =
     [48 + n div 1000, 48 + n div 100 mod 10, 48 + n div 10 mod 10, 48 + n mod 10]"
proof -
  have "n div 10 div 100 = n div 1000" "n div 10 div 10 = n div 100"
    by (simp_all add: div_mult2_eq [symmetric])
  with assms show ?thesis
    by (subst decimal.simps) (simp add: decimal_3)
qed

lemma replicate_small:
  "replicate 1 x = [x]" "replicate 2 x = [x, x]" "replicate 3 x = [x, x, x]"
  by (simp_all add: numeral_2_eq_2 numeral_3_eq_3)

lemma zfill_2:
  assumes "n < 100"
  shows "zfill 2 (decimal n) = [48 + n div 10, 48 + n mod 10]"
proof (cases "n < 10")
  case True
  then show ?thesis by (simp add: zfill_def decimal_1)
next
  case False
  with assms show ?thesis by (simp add: zfill_def decimal_2)
qed

lemma zfill_4:
  assumes "n < 10000"
  shows "zfill 4 (decimal n) =
     [48 + n div 1000, 48 + n div 100 mod 10, 48 + n div 10 mod 10, 48 + n mod 10]"
proof -
  consider "n < 10" | "10 \<le> n" "n < 100" | "100 \<le> n" "n < 1000" | "1000 \<le> n"
    by linarith
  then show ?thesis
  proof cases
    case 1
    then show ?thesis by (simp add: zfill_def decimal_1 replicate_small)
  next
    case 2
    then show ?thesis by (simp add: zfill_def decimal_2 replicate_small)
  next
    case 3
    then show ?thesis by (simp add: zfill_def decimal_3 replicate_small)
  next
    case 4
    with assms show ?thesis by (simp add: zfill_def decimal_4)
  qed
qed

lemma strftime_Ymd_digits:
  assumes "year d < 10000" "month d < 100" "day d < 100"
  shows "strftime_Ymd d =
     [48 + year d div 1000, 48 + year d div 100 mod 10, 48 + year d div 10 mod 10,
      48 + year d mod 10, 45, 48 + month d div 10, 48 + month d mod 10, 45,
      48 + day d div 10, 48 + day d mod 10]"
  using assms by (simp add: strftime_Ymd_def zfill_2 zfill_4 lit_def)

lemma is_iso_date_strftime:
  assumes "valid_date d"
  shows "is_iso_date (strftime_Ymd d)"
proof -
  from assms have b: "year d < 10000" "month d < 100" "day d < 100"
    by (simp_all add: valid_date_def)
  then have "year d div 1000 \<le> 9" "month d div 10 \<le> 9" "day d div 10 \<le> 9"
    by simp_all
  moreover have "n mod 10 \<le> 9" for n :: nat
    using mod_less_divisor [of 10 n] by simp
  ultimately show ?thesis
    by (simp add: strftime_Ymd_digits [OF b] is_iso_date_def is_digit_def)
qed

lemma fold_block:
  "fold (\<lambda>e acc. acc @ block e) sm init = init @ concat (map block sm)"
  by (induction sm arbitrary: init) simp_all

subsection \<open>Order of the requests of one sender\<close>

lemma messages_loop_extends:
  assumes "\<And>u i f. \<not> P (MessagesGet u i f)" "\<And>u i l. \<not> P (MessagesModify u i l)"
  shows "\<exists>evs. snd (messages_loop w ms acc tr) = tr @ evs \<and> filter P evs = []"
proof (induction ms arbitrary: acc tr)
  case Nil
  show ?case by (simp add: io_simps)
next
  case (Cons m ms)
  show ?case
  proof (cases "ref_id m")
    case None
    then show ?thesis by (simp add: io_simps)
  next
    case (Some i)
    let ?G = "MessagesGet me i (lit ''full'')"
    let ?M = "MessagesModify me i [lit ''UNREAD'', lit ''INBOX'']"
    show ?thesis
    proof (rule io_cases [of "get_email_content w i" tr, OF snd_get_email_content])
      fix e assume "get_email_content w i tr = (Inl e, tr @ [?G])"
      with Some have "snd (messages_loop w (m # ms) acc tr) = tr @ [?G]"
        by (simp add: io_simps)
      then show ?thesis by (simp add: assms)
    next
      fix content
      assume g: "get_email_content w i tr = (Inr content, tr @ [?G])"
      show ?thesis
      proof (rule io_cases [of "archive_email w i" "tr @ [?G]", OF snd_archive_email])
        fix e
        assume "archive_email w i (tr @ [?G]) = (Inl e, (tr @ [?G]) @ [?M])"
        with Some g have "snd (messages_loop w (m # ms) acc tr) = tr @ [?G, ?M]"
          by (simp add: io_simps)
        then show ?thesis by (simp add: assms)
      next
        fix u :: unit
        assume "archive_email w i (tr @ [?G]) = (Inr u, (tr @ [?G]) @ [?M])"
        with Some g have "snd (messages_loop w (m # ms) acc tr) =
            snd (messages_loop w ms (acc @ content @ NL @ NL) (tr @ [?G, ?M]))"
          by (simp add: io_simps)
        moreover from Cons.IH [of "acc @ content @ NL @ NL" "tr @ [?G, ?M]"] obtain evs where
          "snd (messages_loop w ms (acc @ content @ NL @ NL) (tr @ [?G, ?M])) =
             (tr @ [?G, ?M]) @ evs" "filter P evs = []"
          by blast
        ultimately have "snd (messages_loop w (m # ms) acc tr) = tr @ ([?G, ?M] @ evs)
            \<and> filter P ([?G, ?M] @ evs) = []"
          by (simp add: assms)
        then show ?thesis by blast
      qed
    qed
  qed
qed

lemma no_chat_in_fetch_archive: "filter is_chat (concat (map fetch_archive ids)) = []"
  by (induction ids) (simp_all add: fetch_archive_def)

lemma process_sender_chat_last:
  assumes p: "process_sender w s sm tr = (r, tr')"
    and q: "get_newsletter_emails w s tr = (q, tr1)"
    and e: "is_chat e" "e \<in> set (drop (length tr) tr')"
  shows "\<exists>msgs ids. q = Inr msgs \<and> map ref_id msgs = map Some ids \<and>
     tr' = tr1 @ concat (map fetch_archive ids) @ [e]"
proof -
  let ?L = "MessagesList me (lit ''from:'' @ s @ lit '' is:unread'') 1"
  from q snd_get_newsletter_emails [of w s tr] have tr1: "tr1 = tr @ [?L]" by simp
  show ?thesis
  proof (cases q)
    case (Inl x)
    with p q have "tr' = tr1" by (simp add: process_sender_def io_bind_apply)
    with tr1 e show ?thesis by auto
  next
    case (Inr msgs)
    note u = process_sender_unfold [OF q [unfolded Inr], of sm]
    show ?thesis
    proof (cases "msgs = []")
      case True
      with u p have "tr' = tr1" by simp
      with tr1 e show ?thesis by auto
    next
      case False
      obtain r2 tr2 where l: "messages_loop w msgs [] tr1 = (r2, tr2)"
        by (cases "messages_loop w msgs [] tr1")
      from messages_loop_extends [of is_chat w msgs "[]" tr1] l obtain evs where
        evs: "tr2 = tr1 @ evs" "filter is_chat evs = []"
        by auto
      have no: "e \<notin> set evs"
      proof
        assume "e \<in> set evs"
        with e(1) have "e \<in> set (filter is_chat evs)" by simp
        with evs(2) show False by simp
      qed
      show ?thesis
      proof (cases r2)
        case (Inl x)
        with u p l False have "tr' = tr2" by (simp add: io_bind_apply)
        with tr1 evs e no show ?thesis by auto
      next
        case c: (Inr c)
        from messages_loop_ok [OF l [unfolded c]] obtain ids where
          ids: "map ref_id msgs = map Some ids" "tr2 = tr1 @ concat (map fetch_archive ids)"
          by blast
        from messages_loop_nonempty [OF l [unfolded c]] False have "c \<noteq> []" by simp
        with u p l False c have "tr' = snd (summarize_with_gpt w c tr2)"
          by (auto simp: io_bind_apply io_return_apply split: prod.splits sum.splits)
        then have t: "tr' = tr2 @ [ChatCompletionsCreate (lit ''gpt-4'')
            [(lit ''system'', system_prompt), (lit ''user'', truncated_content c)]]"
          by (simp add: snd_summarize_with_gpt)
        with tr1 evs e no have "e = ChatCompletionsCreate (lit ''gpt-4'')
            [(lit ''system'', system_prompt), (lit ''user'', truncated_content c)]"
          by auto
        with t ids Inr show ?thesis by simp
      qed
    qed
  qed
qed

lemma messages_loop_prefix:
  assumes "ref_id m = Some i" "fst (get_email_content w i tr) = Inr content"
  shows "prefix (tr @ fetch_archive i) (snd (messages_loop w (m # ms) acc tr))"
proof -
  let ?G = "MessagesGet me i (lit ''full'')"
  let ?M = "MessagesModify me i [lit ''UNREAD'', lit ''INBOX'']"
  from assms(2) snd_get_email_content [of w i tr]
  have g: "get_email_content w i tr = (Inr content, tr @ [?G])"
    by (cases "get_email_content w i tr") simp
  show ?thesis
  proof (rule io_cases [of "archive_email w i" "tr @ [?G]", OF snd_archive_email])
    fix e
    assume "archive_email w i (tr @ [?G]) = (Inl e, (tr @ [?G]) @ [?M])"
    with assms(1) g have "snd (messages_loop w (m # ms) acc tr) = tr @ [?G, ?M]"
      by (simp add: io_simps)
    then show ?thesis by (simp add: fetch_archive_def)
  next
    fix u :: unit
    assume "archive_email w i (tr @ [?G]) = (Inr u, (tr @ [?G]) @ [?M])"
    with assms(1) g have "snd (messages_loop w (m # ms) acc tr) =
        snd (messages_loop w ms (acc @ content @ NL @ NL) (tr @ [?G, ?M]))"
      by (simp add: io_simps)
    moreover from messages_loop_extends [of "\<lambda>_. False" w ms "acc @ content @ NL @ NL" "tr @ [?G, ?M]"]
    obtain evs where
      "snd (messages_loop w ms (acc @ content @ NL @ NL) (tr @ [?G, ?M])) = (tr @ [?G, ?M]) @ evs"
      by auto
    ultimately show ?thesis by (simp add: fetch_archive_def prefix_def)
  qed
qed

lemma demo_query_A:
  "get_newsletter_emails demo_world sender_A [] =
     (Inr [\<lparr> ref_id = Some (lit ''m1'') \<rparr>],
      [MessagesList me (lit ''from:a@example.com is:unread'') 1])"
  by (simp add: run_defs demo_world_def)

lemma demo_content:
  "get_email_content demo_world (lit ''m1'')
     [MessagesList me (lit ''from:a@example.com is:unread'') 1] =
     (Inr (lit ''Hello world''),
      [MessagesList me (lit ''from:a@example.com is:unread'') 1,
       MessagesGet me (lit ''m1'') (lit ''full'')])"
  by (simp add: run_defs demo_world_def lit_def [symmetric])

lemma demo_sender_A:
  "process_sender demo_world sender_A [] [] =
     (Inr [(sender_A, Some (lit ''- hi''))],
      [MessagesList me (lit ''from:a@example.com is:unread'') 1,
       MessagesGet me (lit ''m1'') (lit ''full''),
       MessagesModify me (lit ''m1'') [lit ''UNREAD'', lit ''INBOX''],
       ChatCompletionsCreate (lit ''gpt-4'')
         [(lit ''system'', system_prompt), (lit ''user'', lit ''Hello world'' @ NL @ NL)]])"
  by (simp add: run_defs demo_world_def lit_def [symmetric])

lemma empty_body_content:
  "get_email_content empty_body_world (lit ''m1'')
     [MessagesList me (lit ''from:a@example.com is:unread'') 1] =
     (Inr [],
      [MessagesList me (lit ''from:a@example.com is:unread'') 1,
       MessagesGet me (lit ''m1'') (lit ''full'')])"
  by (simp add: run_defs empty_body_world_def demo_world_def)


text \<open>An empty list of sub-parts has no first element: the subscript raises.\<close>

lemma empty_parts_raises:
  assumes "get_execute w (tr @ [MessagesGet me mid (lit ''full'')]) = Inr msg"
    and "msg_payload msg = Some pl" and "part_parts pl = Some []"
  shows "get_email_content w mid tr = (Inl IndexError, tr @ [MessagesGet me mid (lit ''full'')])"
  using assms by (simp add: get_email_content_def io_simps)

section \<open>Properties of the pipeline\<close>

text \<open>
  C3. Summarization step, truncation rule: when the content given to
  \<open>summarize_with_gpt\<close> is longer than 4000 characters, the user text of the request
  it issues is the first 4000 characters followed by the marker \<open>...\<close>; when it has
  at most 4000 characters, the user text is the content itself.
\<close>

theorem summarize_truncates:
  "(length content > 4000 \<longrightarrow>
      snd (summarize_with_gpt w content tr) =
        tr @ [ChatCompletionsCreate (lit ''gpt-4'')
                [(lit ''system'', system_prompt),
                 (lit ''user'', take 4000 content @ lit ''...'')]]
      \<and> length (take 4000 content) = 4000)
   \<and> (length content \<le> 4000 \<longrightarrow>
      snd (summarize_with_gpt w content tr) =
        tr @ [ChatCompletionsCreate (lit ''gpt-4'')
                [(lit ''system'', system_prompt), (lit ''user'', content)]])"
  by (simp add: snd_summarize_with_gpt truncated_content_def)

theorem summarize_truncates_witness:
  "length (replicate 4001 (120::nat)) > 4000
   \<and> snd (summarize_with_gpt demo_world (replicate 4001 120) []) =
       [ChatCompletionsCreate (lit ''gpt-4'')
          [(lit ''system'', system_prompt), (lit ''user'', replicate 4000 120 @ lit ''...'')]]
   \<and> length (lit ''Hello world'') \<le> 4000
   \<and> snd (summarize_with_gpt demo_world (lit ''Hello world'') []) =
       [ChatCompletionsCreate (lit ''gpt-4'')
          [(lit ''system'', system_prompt), (lit ''user'', lit ''Hello world'')]]"
  using summarize_truncates [of "replicate 4001 120" demo_world "[]"]
    summarize_truncates [of "lit ''Hello world''" demo_world "[]"]
  by (simp add: lit_def)

text \<open>
  C6. One run over a sender list of length N issues exactly N unread-message queries, one
  per sender and in the order of the list, each with \<open>maxResults = 1\<close>. A run that
  ends with an exception has issued the queries of a prefix of the list.
\<close>

theorem one_query_per_sender:
  assumes "main_with w senders [] = (r, tr)"
  shows "(\<exists>k\<le>length senders.
           filter is_list_query tr =
             map (\<lambda>s. MessagesList me (lit ''from:'' @ s @ lit '' is:unread'') 1)
               (take k senders))
         \<and> (r = Inr () \<longrightarrow>
             filter is_list_query tr =
               map (\<lambda>s. MessagesList me (lit ''from:'' @ s @ lit '' is:unread'') 1) senders
             \<and> length (filter is_list_query tr) = length senders)"
proof (cases "auth w")
  case (Inl e)
  with assms have "tr = []" "r = Inl e"
    by (simp_all add: main_with_def get_gmail_service_def io_simps)
  then show ?thesis by (auto intro: exI [of _ 0])
next
  case (Inr u)
  obtain r1 tr1 where l: "senders_loop w senders [] [] = (r1, tr1)"
    by (cases "senders_loop w senders [] []")
  from senders_loop_queries [OF l] obtain k where k: "k \<le> length senders"
    "filter is_list_query tr1 =
       map (\<lambda>s. MessagesList me (lit ''from:'' @ s @ lit '' is:unread'') 1) (take k senders)"
    "(\<exists>x. r1 = Inr x) \<longrightarrow> k = length senders"
    by auto
  show ?thesis
  proof (cases r1)
    case (Inl e)
    with assms Inr l have "tr = tr1" "r = Inl e"
      by (simp_all add: main_with_def get_gmail_service_def io_simps)
    with k show ?thesis by auto
  next
    case sm: (Inr sm)
    have "filter is_list_query tr = filter is_list_query tr1"
    proof (cases "sm = []")
      case True
      with main_with_after_loop [of w senders "[]" sm tr1] Inr l sm assms show ?thesis by simp
    next
      case False
      with main_with_after_loop [of w senders "[]" sm tr1] Inr l sm
      have "snd (main_with w senders []) = snd (send_summary_email w sm tr1)" by simp
      with assms have "tr = snd (send_summary_email w sm tr1)" by simp
      then show ?thesis by (simp add: snd_send_summary_email)
    qed
    with k sm show ?thesis by auto
  qed
qed

theorem one_query_per_sender_witness:
  "main_with demo_world [sender_A, sender_B] [] =
     (Inr (),
      [MessagesList me (lit ''from:a@example.com is:unread'') 1,
       MessagesGet me (lit ''m1'') (lit ''full''),
       MessagesModify me (lit ''m1'') [lit ''UNREAD'', lit ''INBOX''],
       ChatCompletionsCreate (lit ''gpt-4'')
         [(lit ''system'', system_prompt), (lit ''user'', lit ''Hello world'' @ NL @ NL)],
       MessagesList me (lit ''from:b@example.com is:unread'') 1,
       MessagesSend me
         (lit ''Newsletter Summaries - 2024-03-07'' @ NL @
          lit ''Newsletter Summaries for 2024-03-07'' @ NL @ NL @ NL @
          lit ''From a@example.com:'' @ NL @ lit ''- hi'' @ NL)])
   \<and> filter is_list_query
       [MessagesList me (lit ''from:a@example.com is:unread'') 1,
        MessagesGet me (lit ''m1'') (lit ''full''),
        MessagesModify me (lit ''m1'') [lit ''UNREAD'', lit ''INBOX''],
        ChatCompletionsCreate (lit ''gpt-4'')
          [(lit ''system'', system_prompt), (lit ''user'', lit ''Hello world'' @ NL @ NL)],
        MessagesList me (lit ''from:b@example.com is:unread'') 1,
        MessagesSend me
          (lit ''Newsletter Summaries - 2024-03-07'' @ NL @
           lit ''Newsletter Summaries for 2024-03-07'' @ NL @ NL @ NL @
           lit ''From a@example.com:'' @ NL @ lit ''- hi'' @ NL)] =
     [MessagesList me (lit ''from:'' @ sender_A @ lit '' is:unread'') 1,
      MessagesList me (lit ''from:'' @ sender_B @ lit '' is:unread'') 1]"
  using one_query_per_sender [OF demo_run] demo_run by simp

text \<open>
  C4. After all senders are processed: with an empty mapping the run ends normally and
  its trace holds no send request; with a non-empty mapping the run goes on with
  \<open>send_summary_email\<close> and its trace holds exactly one send request, the digest.
\<close>

theorem digest_sent_iff_summaries:
  assumes "auth w = Inr ()" "senders_loop w senders [] [] = (Inr sm, tr1)"
  shows "(sm = [] \<longrightarrow>
            main_with w senders [] = (Inr (), tr1)
            \<and> filter is_send (snd (main_with w senders [])) = [])
         \<and> (sm \<noteq> [] \<longrightarrow>
            main_with w senders [] = send_summary_email w sm tr1
            \<and> filter is_send (snd (main_with w senders [])) =
                [MessagesSend me (as_raw w (compose (strftime_Ymd (now w tr1)) sm))])"
proof -
  have "filter is_send tr1 = []"
    using senders_loop_no_send [of w senders "[]" "[]"] assms(2) by simp
  then show ?thesis
    using main_with_after_loop [OF assms] by (simp add: snd_send_summary_email)
qed

theorem digest_sent_iff_summaries_witness:
  "filter is_send (snd (main_with demo_world [sender_B] [])) = []
   \<and> main_with demo_world [sender_B] [] =
       (Inr (), [MessagesList me (lit ''from:b@example.com is:unread'') 1])
   \<and> length (filter is_send (snd (main_with demo_world [sender_A, sender_B] []))) = 1"
  using digest_sent_iff_summaries [OF demo_auth quiet_loop]
    digest_sent_iff_summaries [OF demo_auth demo_loop]
  by (simp add: snd_send_summary_email)

text \<open>
  C7. When the query for a sender returns no message, the step for that sender leaves
  the mapping as it was, issues no request but the query (so no archive request), and
  the loop goes on with the next sender; a sender whose queries all return no message is
  not a key of the mapping at the end of the loop.
\<close>

theorem no_messages_skips_sender:
  "(fst (get_newsletter_emails w s tr) = Inr [] \<longrightarrow>
      process_sender w s sm tr =
        (Inr sm, tr @ [MessagesList me (lit ''from:'' @ s @ lit '' is:unread'') 1])
      \<and> filter is_modify (snd (process_sender w s sm tr)) = filter is_modify tr
      \<and> senders_loop w (s # rest) sm tr =
          senders_loop w rest sm
            (tr @ [MessagesList me (lit ''from:'' @ s @ lit '' is:unread'') 1]))
   \<and> ((\<forall>t. fst (get_newsletter_emails w s t) = Inr []) \<and> s \<notin> fst ` set sm0
        \<and> senders_loop w senders sm0 tr0 = (Inr sm', tr')
      \<longrightarrow> s \<notin> fst ` set sm')"
proof (intro conjI impI)
  assume q: "fst (get_newsletter_emails w s tr) = Inr []"
  from process_sender_no_messages [OF q]
  show p: "process_sender w s sm tr =
      (Inr sm, tr @ [MessagesList me (lit ''from:'' @ s @ lit '' is:unread'') 1])" .
  from p show "filter is_modify (snd (process_sender w s sm tr)) = filter is_modify tr"
    by simp
  from p show "senders_loop w (s # rest) sm tr =
      senders_loop w rest sm (tr @ [MessagesList me (lit ''from:'' @ s @ lit '' is:unread'') 1])"
    by (simp add: io_bind_apply)
next
  assume "(\<forall>t. fst (get_newsletter_emails w s t) = Inr []) \<and> s \<notin> fst ` set sm0
        \<and> senders_loop w senders sm0 tr0 = (Inr sm', tr')"
  then show "s \<notin> fst ` set sm'"
    using senders_loop_absent [of w s senders sm0 tr0 sm' tr'] by blast
qed

lemma demo_no_mail_for_B: "fst (get_newsletter_emails demo_world sender_B t) = Inr []"
  by (simp add: get_newsletter_emails_def io_simps demo_world_def sender_B_def)

theorem no_messages_skips_sender_witness:
  "fst (get_newsletter_emails demo_world sender_B []) = Inr []
   \<and> process_sender demo_world sender_B [] [] =
       (Inr [], [MessagesList me (lit ''from:b@example.com is:unread'') 1])
   \<and> sender_B \<notin> fst ` set ([] :: summaries)
   \<and> senders_loop demo_world [sender_A, sender_B] [] [] =
       (Inr [(sender_A, Some (lit ''- hi''))],
        [MessagesList me (lit ''from:a@example.com is:unread'') 1,
         MessagesGet me (lit ''m1'') (lit ''full''),
         MessagesModify me (lit ''m1'') [lit ''UNREAD'', lit ''INBOX''],
         ChatCompletionsCreate (lit ''gpt-4'')
           [(lit ''system'', system_prompt), (lit ''user'', lit ''Hello world'' @ NL @ NL)],
         MessagesList me (lit ''from:b@example.com is:unread'') 1])
   \<and> sender_B \<notin> fst ` set [(sender_A, Some (lit ''- hi''))]"
  using no_messages_skips_sender [of demo_world sender_B "[]" "[]" "[]" "[]"
      "[sender_A, sender_B]" "[]" "[(sender_A, Some (lit ''- hi''))]"]
    demo_no_mail_for_B demo_loop
  by (simp add: sender_A_def sender_B_def)

text \<open>
  C10. Invariant of the outer loop: after any number of senders of the configured list
  have been processed, the keys of the mapping are members of the list, no key occurs
  twice, and the keys in insertion order are a subsequence of the list.
\<close>

theorem summaries_keys_invariant:
  assumes "senders = seen @ rest" "senders_loop w seen [] tr = (Inr sm, tr')"
  shows "set (map fst sm) \<subseteq> set senders \<and> distinct (map fst sm)
         \<and> subseq (map fst sm) seen \<and> subseq (map fst sm) senders"
proof -
  from senders_loop_keys [OF assms(2)] have s: "subseq (map fst sm) seen"
    and d: "distinct (map fst sm)"
    by auto
  from s have s': "subseq (map fst sm) senders"
    unfolding assms(1) by (rule subseq_rev_drop_many)
  have "set (map fst sm) \<subseteq> set senders"
  proof
    fix x assume "x \<in> set (map fst sm)"
    with list_emb_set [OF s'] show "x \<in> set senders" by blast
  qed
  with s s' d show ?thesis by simp
qed

theorem summaries_keys_invariant_witness:
  "[sender_A, sender_B] = [sender_A, sender_B] @ []
   \<and> set (map fst [(sender_A, Some (lit ''- hi''))]) \<subseteq> set [sender_A, sender_B]
   \<and> distinct (map fst [(sender_A, Some (lit ''- hi''))])
   \<and> subseq (map fst [(sender_A, Some (lit ''- hi''))]) [sender_A, sender_B]"
  using summaries_keys_invariant [of "[sender_A, sender_B]" "[sender_A, sender_B]" "[]", OF _ demo_loop]
  by simp

text \<open>
  C5. The digest that \<open>send_summary_email\<close> sends: its text starts with the header
  line \<open>Newsletter Summaries for D\<close> and a blank line, then has one block per entry of
  the mapping, in insertion order, made of a blank line, the line \<open>From sender:\<close> and
  the summary (the word \<open>None\<close> when the service returned no text); its subject is
  \<open>Newsletter Summaries - D\<close>. In both places \<open>D\<close> is the date of the run: the four
  decimal digits of its year, a hyphen, the two digits of its month, a hyphen and the
  two digits of its day. The year is taken to have four digits, so that the padding of
  shorter years, on which C libraries differ, plays no part.
\<close>

theorem digest_layout:
  assumes "valid_date (now w tr)" and "1000 \<le> year (now w tr)"
  shows "(let d = now w tr;
              date_str =
                [48 + year d div 1000, 48 + year d div 100 mod 10, 48 + year d div 10 mod 10,
                 48 + year d mod 10, 45, 48 + month d div 10, 48 + month d mod 10, 45,
                 48 + day d div 10, 48 + day d mod 10]
          in is_iso_date date_str
             \<and> year d div 1000 \<le> 9 \<and> month d div 10 \<le> 1 \<and> day d div 10 \<le> 3
             \<and> snd (send_summary_email w sm tr) =
                 tr @ [MessagesSend me (as_raw w
                   \<lparr> mime_payload =
                       lit ''Newsletter Summaries for '' @ date_str @ NL @ NL @
                       concat (map (\<lambda>(sender, summary).
                         NL @ lit ''From '' @ sender @ lit '':'' @ NL @
                         (case summary of None \<Rightarrow> lit ''None'' | Some txt \<Rightarrow> txt) @ NL) sm),
                     mime_to = lit ''atreya@gmail.com'',
                     mime_subject = lit ''Newsletter Summaries - '' @ date_str \<rparr>)])"
proof -
  from assms(1) have b: "year (now w tr) < 10000" "month (now w tr) < 100" "day (now w tr) < 100"
    by (simp_all add: valid_date_def)
  from assms(1) have "year (now w tr) \<le> 9999" "month (now w tr) \<le> 12" "day (now w tr) \<le> 31"
    by (simp_all add: valid_date_def)
  then have c: "year (now w tr) div 1000 \<le> 9" "month (now w tr) div 10 \<le> 1"
      "day (now w tr) div 10 \<le> 3"
    using div_le_mono [of "year (now w tr)" 9999 1000] div_le_mono [of "month (now w tr)" 12 10]
      div_le_mono [of "day (now w tr)" 31 10]
    by simp_all
  have "block = (\<lambda>(sender, summary).
      NL @ lit ''From '' @ sender @ lit '':'' @ NL @
      (case summary of None \<Rightarrow> lit ''None'' | Some txt \<Rightarrow> txt) @ NL)"
    by (simp add: block_def fmt_def fun_eq_iff)
  then show ?thesis
    using is_iso_date_strftime [OF assms(1)] c
    by (simp add: Let_def snd_send_summary_email compose_def fold_block
        strftime_Ymd_digits [OF b])
qed

theorem digest_layout_witness:
  "valid_date (now demo_world []) \<and> 1000 \<le> year (now demo_world [])
   \<and> now demo_world [] = \<lparr> year = 2024, month = 3, day = 7 \<rparr>
   \<and> is_iso_date (lit ''2024-03-07'')
   \<and> snd (send_summary_email demo_world
         [(sender_A, Some (lit ''- hi'')), (sender_B, None)] []) =
       [MessagesSend me (as_raw demo_world
          \<lparr> mime_payload =
              lit ''Newsletter Summaries for 2024-03-07'' @ NL @ NL @
              NL @ lit ''From a@example.com:'' @ NL @ lit ''- hi'' @ NL @
              NL @ lit ''From b@example.com:'' @ NL @ lit ''None'' @ NL,
            mime_to = lit ''atreya@gmail.com'',
            mime_subject = lit ''Newsletter Summaries - 2024-03-07'' \<rparr>)]"
proof -
  have n: "now demo_world [] = \<lparr> year = 2024, month = 3, day = 7 \<rparr>"
    by (simp add: demo_world_def)
  have v: "valid_date (now demo_world [])" and y: "1000 \<le> year (now demo_world [])"
    by (simp_all add: n valid_date_def)
  from digest_layout [OF v y, of "[(sender_A, Some (lit ''- hi'')), (sender_B, None)]"]
  show ?thesis
    using v y by (simp add: n Let_def sender_A_def sender_B_def lit_def NL_def)
qed

text \<open>
  C9. Content of a fetched message: when the payload has sub-parts, the data of the
  first sub-part's body is decoded and returned, whatever the other sub-parts and the
  top-level body hold; when it has none, the data of the top-level body is decoded and
  returned; and when the body so selected has no data, the result is the empty string.
\<close>

theorem first_part_body_is_decoded:
  assumes "get_execute w (tr @ [MessagesGet me mid (lit ''full'')]) = Inr msg"
    and "msg_payload msg = Some pl"
  shows "(part_parts pl = Some (p # ps) \<and> part_body p = Some b \<longrightarrow>
            fst (get_email_content w mid tr) =
              (case body_data b of
                 None \<Rightarrow> Inr []
               | Some d \<Rightarrow>
                   if d = [] then Inr []
                   else (case urlsafe_b64decode w d of
                           Inl e \<Rightarrow> Inl e
                         | Inr raw \<Rightarrow> bytes_decode w raw)))
       \<and> (part_parts pl = None \<and> part_body pl = Some b \<longrightarrow>
            fst (get_email_content w mid tr) =
              (case body_data b of
                 None \<Rightarrow> Inr []
               | Some d \<Rightarrow>
                   if d = [] then Inr []
                   else (case urlsafe_b64decode w d of
                           Inl e \<Rightarrow> Inl e
                         | Inr raw \<Rightarrow> bytes_decode w raw)))
       \<and> ((part_parts pl = Some (p # ps) \<and> part_body p = Some b
             \<or> part_parts pl = None \<and> part_body pl = Some b) \<and> body_data b = None \<longrightarrow>
            get_email_content w mid tr = (Inr [], tr @ [MessagesGet me mid (lit ''full'')]))"
  using assms
  by (auto simp: get_email_content_def get_data_def io_simps split: option.splits sum.splits)

lemma multipart_get:
  "get_execute multipart_world ([] @ [MessagesGet me (lit ''m1'') (lit ''full'')]) =
     Inr \<lparr> msg_payload =
       Some (MessagePart (Some \<lparr> body_data = Some (lit ''dG9w'') \<rparr>)
         (Some [MessagePart (Some \<lparr> body_data = Some (lit ''SGVsbG8gd29ybGQ='') \<rparr>) None,
                MessagePart (Some \<lparr> body_data = Some (lit ''PGI+'') \<rparr>) None])) \<rparr>"
  by (simp add: multipart_world_def demo_world_def)

lemma demo_get:
  "get_execute demo_world ([] @ [MessagesGet me (lit ''m1'') (lit ''full'')]) =
     Inr \<lparr> msg_payload =
       Some (MessagePart (Some \<lparr> body_data = Some (lit ''SGVsbG8gd29ybGQ='') \<rparr>) None) \<rparr>"
  by (simp add: demo_world_def)

lemma empty_body_get:
  "get_execute empty_body_world ([] @ [MessagesGet me (lit ''m1'') (lit ''full'')]) =
     Inr \<lparr> msg_payload = Some (MessagePart (Some \<lparr> body_data = None \<rparr>) None) \<rparr>"
  by (simp add: empty_body_world_def demo_world_def)

theorem first_part_body_is_decoded_witness:
  "fst (get_email_content multipart_world (lit ''m1'') []) = Inr (lit ''Hello world'')
   \<and> fst (get_email_content demo_world (lit ''m1'') []) = Inr (lit ''Hello world'')
   \<and> get_email_content empty_body_world (lit ''m1'') [] =
       (Inr [], [MessagesGet me (lit ''m1'') (lit ''full'')])"
  using first_part_body_is_decoded [OF multipart_get, of _
      "MessagePart (Some \<lparr> body_data = Some (lit ''SGVsbG8gd29ybGQ='') \<rparr>) None"
      "[MessagePart (Some \<lparr> body_data = Some (lit ''PGI+'') \<rparr>) None]"
      "\<lparr> body_data = Some (lit ''SGVsbG8gd29ybGQ='') \<rparr>"]
    first_part_body_is_decoded [OF demo_get, of _ "MessagePart None None" "[]"
      "\<lparr> body_data = Some (lit ''SGVsbG8gd29ybGQ='') \<rparr>"]
    first_part_body_is_decoded [OF empty_body_get, of _ "MessagePart None None" "[]"
      "\<lparr> body_data = None \<rparr>"]
  by (simp add: multipart_world_def empty_body_world_def demo_world_def lit_def [symmetric])

text \<open>
  C8. Archiving: once the content of a message has been fetched and decoded, the very
  next request is the archive request for that message, removing the labels \<open>UNREAD\<close>
  and \<open>INBOX\<close>; and when a summarization request is issued for a sender, it is the last
  request of that sender's step, after every message the query returned has been fetched
  and archived, so its outcome cannot undo or prevent an archive request.
\<close>

theorem archive_follows_fetch:
  "(ref_id m = Some i \<and> fst (get_email_content w i tr) = Inr content \<longrightarrow>
      prefix
        (tr @ [MessagesGet me i (lit ''full''),
               MessagesModify me i [lit ''UNREAD'', lit ''INBOX'']])
        (snd (messages_loop w (m # ms) acc tr)))
   \<and> (process_sender w s sm tr0 = (r, tr') \<and> get_newsletter_emails w s tr0 = (q, tr1)
       \<and> is_chat e \<and> e \<in> set (drop (length tr0) tr') \<longrightarrow>
      (\<exists>msgs ids. q = Inr msgs \<and> map ref_id msgs = map Some ids \<and>
         tr' = tr1 @
           concat (map (\<lambda>j. [MessagesGet me j (lit ''full''),
                              MessagesModify me j [lit ''UNREAD'', lit ''INBOX'']]) ids)
           @ [e]))"
proof (intro conjI impI)
  assume "ref_id m = Some i \<and> fst (get_email_content w i tr) = Inr content"
  then show "prefix
        (tr @ [MessagesGet me i (lit ''full''),
               MessagesModify me i [lit ''UNREAD'', lit ''INBOX'']])
        (snd (messages_loop w (m # ms) acc tr))"
    using messages_loop_prefix [of m i w tr content ms acc] by (simp add: fetch_archive_def)
next
  assume a: "process_sender w s sm tr0 = (r, tr') \<and> get_newsletter_emails w s tr0 = (q, tr1)
       \<and> is_chat e \<and> e \<in> set (drop (length tr0) tr')"
  have "fetch_archive = (\<lambda>j. [MessagesGet me j (lit ''full''),
      MessagesModify me j [lit ''UNREAD'', lit ''INBOX'']])"
    by (simp add: fetch_archive_def fun_eq_iff)
  with process_sender_chat_last [of w s sm tr0 r tr' q tr1 e] a
  show "\<exists>msgs ids. q = Inr msgs \<and> map ref_id msgs = map Some ids \<and>
         tr' = tr1 @
           concat (map (\<lambda>j. [MessagesGet me j (lit ''full''),
                              MessagesModify me j [lit ''UNREAD'', lit ''INBOX'']]) ids)
           @ [e]"
    by simp
qed

theorem archive_follows_fetch_witness:
  "fst (get_email_content demo_world (lit ''m1'')
         [MessagesList me (lit ''from:a@example.com is:unread'') 1]) = Inr (lit ''Hello world'')
   \<and> prefix
       [MessagesList me (lit ''from:a@example.com is:unread'') 1,
        MessagesGet me (lit ''m1'') (lit ''full''),
        MessagesModify me (lit ''m1'') [lit ''UNREAD'', lit ''INBOX'']]
       (snd (messages_loop demo_world [\<lparr> ref_id = Some (lit ''m1'') \<rparr>] []
          [MessagesList me (lit ''from:a@example.com is:unread'') 1]))
   \<and> is_chat (ChatCompletionsCreate (lit ''gpt-4'')
         [(lit ''system'', system_prompt), (lit ''user'', lit ''Hello world'' @ NL @ NL)])
   \<and> (\<exists>msgs ids.
        fst (get_newsletter_emails demo_world sender_A []) = Inr msgs
        \<and> map ref_id msgs = map Some ids
        \<and> snd (process_sender demo_world sender_A [] []) =
            [MessagesList me (lit ''from:a@example.com is:unread'') 1] @
            concat (map (\<lambda>j. [MessagesGet me j (lit ''full''),
                               MessagesModify me j [lit ''UNREAD'', lit ''INBOX'']]) ids) @
            [ChatCompletionsCreate (lit ''gpt-4'')
               [(lit ''system'', system_prompt), (lit ''user'', lit ''Hello world'' @ NL @ NL)]])"
proof -
  let ?L = "MessagesList me (lit ''from:a@example.com is:unread'') 1"
  let ?G = "MessagesGet me (lit ''m1'') (lit ''full'')"
  let ?M = "MessagesModify me (lit ''m1'') [lit ''UNREAD'', lit ''INBOX'']"
  let ?C = "ChatCompletionsCreate (lit ''gpt-4'')
         [(lit ''system'', system_prompt), (lit ''user'', lit ''Hello world'' @ NL @ NL)]"
  note t = archive_follows_fetch [of "\<lparr> ref_id = Some (lit ''m1'') \<rparr>" "lit ''m1''" demo_world
      "[?L]" "lit ''Hello world''" "[]" "[]" sender_A "[]" "[]"
      "Inr [(sender_A, Some (lit ''- hi''))]" "[?L, ?G, ?M, ?C]"
      "Inr [\<lparr> ref_id = Some (lit ''m1'') \<rparr>]" "[?L]" ?C]
  have 1: "fst (get_email_content demo_world (lit ''m1'') [?L]) = Inr (lit ''Hello world'')"
    using demo_content by simp
  from t 1 have 2: "prefix [?L, ?G, ?M]
       (snd (messages_loop demo_world [\<lparr> ref_id = Some (lit ''m1'') \<rparr>] [] [?L]))"
    by simp
  from t demo_sender_A demo_query_A
  have 3: "\<exists>msgs ids. (Inr [\<lparr> ref_id = Some (lit ''m1'') \<rparr>] :: error + msg_ref list) = Inr msgs
      \<and> map ref_id msgs = map Some ids
      \<and> [?L, ?G, ?M, ?C] = [?L] @ concat (map (\<lambda>j. [MessagesGet me j (lit ''full''),
          MessagesModify me j [lit ''UNREAD'', lit ''INBOX'']]) ids) @ [?C]"
    by simp
  have 4: "fst (get_newsletter_emails demo_world sender_A []) =
      Inr [\<lparr> ref_id = Some (lit ''m1'') \<rparr>]"
    using demo_query_A by simp
  have 5: "snd (process_sender demo_world sender_A [] []) = [?L, ?G, ?M, ?C]"
    using demo_sender_A by simp
  show ?thesis
    unfolding 4 5 by (intro conjI 1 2 3) simp
qed

text \<open>
  C2. For a sender whose query returns exactly one message with decodable body text
  \<open>T\<close>: the step issues the query, the fetch and exactly one archive request for that
  message; when the archive request returns, it issues one summarization request, whose
  user text is \<open>T\<close> followed by two newline characters, cut by the truncation rule.
\<close>

theorem single_message_content:
  assumes "get_newsletter_emails w s tr = (Inr [m], tr1)"
    and "ref_id m = Some i"
    and "get_email_content w i tr1 = (Inr T, tr2)"
  shows "snd (process_sender w s sm tr) =
           tr @ [MessagesList me (lit ''from:'' @ s @ lit '' is:unread'') 1,
                 MessagesGet me i (lit ''full''),
                 MessagesModify me i [lit ''UNREAD'', lit ''INBOX'']]
              @ (if fst (archive_email w i tr2) = Inr () then
                   [ChatCompletionsCreate (lit ''gpt-4'')
                      [(lit ''system'', system_prompt),
                       (lit ''user'', truncated_content (T @ NL @ NL))]]
                 else [])
         \<and> filter is_modify (drop (length tr) (snd (process_sender w s sm tr))) =
             [MessagesModify me i [lit ''UNREAD'', lit ''INBOX'']]"
proof -
  let ?L = "MessagesList me (lit ''from:'' @ s @ lit '' is:unread'') 1"
  let ?G = "MessagesGet me i (lit ''full'')"
  let ?M = "MessagesModify me i [lit ''UNREAD'', lit ''INBOX'']"
  let ?C = "ChatCompletionsCreate (lit ''gpt-4'')
      [(lit ''system'', system_prompt), (lit ''user'', truncated_content (T @ NL @ NL))]"
  from assms(1) snd_get_newsletter_emails [of w s tr] have tr1: "tr1 = tr @ [?L]" by simp
  from assms(3) snd_get_email_content [of w i tr1] have tr2: "tr2 = tr @ [?L, ?G]"
    by (simp add: tr1)
  have u: "process_sender w s sm tr =
      io_bind (messages_loop w [m] []) (\<lambda>c.
        if c \<noteq> [] then
          io_bind (summarize_with_gpt w c) (\<lambda>summary. io_return (AList.update s summary sm))
        else io_return sm) tr1"
    using process_sender_unfold [OF assms(1), of sm] by simp
  have l: "messages_loop w [m] [] tr1 =
      io_bind (archive_email w i) (\<lambda>_. io_return (T @ NL @ NL)) tr2"
    using messages_loop_step [OF assms(2,3), of "[]" "[]"] by simp
  have "snd (process_sender w s sm tr) =
      tr @ [?L, ?G, ?M] @ (if fst (archive_email w i tr2) = Inr () then [?C] else [])"
  proof (rule io_cases [of "archive_email w i" tr2, OF snd_archive_email])
    fix e assume a: "archive_email w i tr2 = (Inl e, tr2 @ [?M])"
    with l have "messages_loop w [m] [] tr1 = (Inl e, tr2 @ [?M])"
      by (simp add: io_bind_apply)
    with u a tr2 show ?thesis by (simp add: io_bind_apply)
  next
    fix x :: unit
    assume a: "archive_email w i tr2 = (Inr x, tr2 @ [?M])"
    with l have "messages_loop w [m] [] tr1 = (Inr (T @ NL @ NL), tr2 @ [?M])"
      by (simp add: io_bind_apply io_return_apply)
    moreover have "T @ NL @ NL \<noteq> []" by (simp add: NL_def)
    ultimately have "snd (process_sender w s sm tr) =
        snd (summarize_with_gpt w (T @ NL @ NL) (tr2 @ [?M]))"
      using u by (simp add: snd_io_bind io_return_apply split: prod.splits sum.splits)
    with a tr2 show ?thesis by (simp add: snd_summarize_with_gpt)
  qed
  then show ?thesis by simp
qed

theorem single_message_content_witness:
  "get_newsletter_emails demo_world sender_A [] =
     (Inr [\<lparr> ref_id = Some (lit ''m1'') \<rparr>],
      [MessagesList me (lit ''from:a@example.com is:unread'') 1])
   \<and> get_email_content demo_world (lit ''m1'')
       [MessagesList me (lit ''from:a@example.com is:unread'') 1] =
       (Inr (lit ''Hello world''),
        [MessagesList me (lit ''from:a@example.com is:unread'') 1,
         MessagesGet me (lit ''m1'') (lit ''full'')])
   \<and> snd (process_sender demo_world sender_A [] []) =
       [MessagesList me (lit ''from:a@example.com is:unread'') 1,
        MessagesGet me (lit ''m1'') (lit ''full''),
        MessagesModify me (lit ''m1'') [lit ''UNREAD'', lit ''INBOX''],
        ChatCompletionsCreate (lit ''gpt-4'')
          [(lit ''system'', system_prompt),
           (lit ''user'', truncated_content (lit ''Hello world'' @ NL @ NL))]]
   \<and> filter is_modify (drop (length ([] :: event list))
         (snd (process_sender demo_world sender_A [] []))) =
       [MessagesModify me (lit ''m1'') [lit ''UNREAD'', lit ''INBOX'']]"
proof -
  have a: "fst (archive_email demo_world (lit ''m1'')
      [MessagesList me (lit ''from:a@example.com is:unread'') 1,
       MessagesGet me (lit ''m1'') (lit ''full'')]) = Inr ()"
    by (simp add: archive_email_def call_apply demo_world_def)
  have "ref_id \<lparr> ref_id = Some (lit ''m1'') \<rparr> = Some (lit ''m1'')" by simp
  from single_message_content [OF demo_query_A this demo_content, of "[]"] a
  show ?thesis
    using demo_query_A demo_content by (simp add: sender_A_def)
qed

text \<open>
  The claim C2 as written, with the summarization input equal to \<open>T\<close> up to
  truncation, fails on the first sample mailbox: the body text is \<open>Hello world\<close>, and
  the user text of the summarization request is \<open>Hello world\<close> followed by two newline
  characters, which is not what the truncation rule makes of \<open>Hello world\<close>.
\<close>

theorem single_message_content_counterexample:
  "get_newsletter_emails demo_world sender_A [] =
     (Inr [\<lparr> ref_id = Some (lit ''m1'') \<rparr>],
      [MessagesList me (lit ''from:a@example.com is:unread'') 1])
   \<and> fst (get_email_content demo_world (lit ''m1'')
       [MessagesList me (lit ''from:a@example.com is:unread'') 1]) = Inr (lit ''Hello world'')
   \<and> snd (process_sender demo_world sender_A [] []) =
       [MessagesList me (lit ''from:a@example.com is:unread'') 1,
        MessagesGet me (lit ''m1'') (lit ''full''),
        MessagesModify me (lit ''m1'') [lit ''UNREAD'', lit ''INBOX''],
        ChatCompletionsCreate (lit ''gpt-4'')
          [(lit ''system'', system_prompt), (lit ''user'', lit ''Hello world'' @ NL @ NL)]]
   \<and> lit ''Hello world'' @ NL @ NL \<noteq> truncated_content (lit ''Hello world'')
   \<and> ChatCompletionsCreate (lit ''gpt-4'')
         [(lit ''system'', system_prompt),
          (lit ''user'', truncated_content (lit ''Hello world''))]
       \<notin> set (snd (process_sender demo_world sender_A [] []))"
proof -
  have "lit ''Hello world'' @ NL @ NL \<noteq> truncated_content (lit ''Hello world'')"
    by (simp add: truncated_content_def NL_def)
  then show ?thesis
    using demo_query_A demo_content demo_sender_A by simp
qed

text \<open>
  C1. The buffer of a sender with at least one message is never empty, because every
  message adds its content and two newline characters; so the test that guards the
  summarization step never fails. On the second sample mailbox the only message decodes
  to the empty string, and still the summarization request is issued, with two newline
  characters as its user text, and the sender gets an entry in the mapping.
\<close>

theorem empty_body_still_summarized:
  "fst (get_email_content empty_body_world (lit ''m1'')
       [MessagesList me (lit ''from:a@example.com is:unread'') 1]) = Inr []
   \<and> process_sender empty_body_world sender_A [] [] =
       (Inr [(sender_A, Some (lit ''- hi''))],
        [MessagesList me (lit ''from:a@example.com is:unread'') 1,
         MessagesGet me (lit ''m1'') (lit ''full''),
         MessagesModify me (lit ''m1'') [lit ''UNREAD'', lit ''INBOX''],
         ChatCompletionsCreate (lit ''gpt-4'')
           [(lit ''system'', system_prompt), (lit ''user'', NL @ NL)]])"
  using empty_body_content
  by (simp add: run_defs empty_body_world_def demo_world_def NL_def)

end
